theory Spec2Isabelle
  imports
    Complex_Main
    "HOL-Library.Multiset"
    "HOL-Library.List_Lexorder"
    "HOL-Library.Product_Lexorder"
    "HOL-Library.Sublist"
    "HOL-Library.Word"
begin

unbundle bit_operations_syntax

section \<open>Strings and inbound query parameters\<close>

text \<open>
  A Python \<open>str\<close> is a sequence of Unicode code points; it is modelled as the list of
  those code points. Python compares two \<open>str\<close> values lexicographically by code point,
  which is the order of \<open>HOL-Library.List_Lexorder\<close> on \<open>nat list\<close>. ASCII output (the
  text produced by \<open>json.dumps\<close>, cache keys) is a HOL \<open>string\<close>.
\<close>

type_synonym pystr = "nat list"

definition py :: "string \<Rightarrow> pystr" where
  "py s = map of_char s"

text \<open>
  The code points a decoded query string can hold: Unicode scalar values, that is
  anything below \<open>0x110000\<close> that is not a surrogate.
\<close>

definition scalar_value :: "nat \<Rightarrow> bool" where
  "scalar_value n \<longleftrightarrow> n < 0x110000 \<and> \<not> (0xD800 \<le> n \<and> n \<le> 0xDFFF)"

definition wf_str :: "pystr \<Rightarrow> bool" where
  "wf_str s \<longleftrightarrow> list_all scalar_value s"

text \<open>
  \<open>request.query_params\<close> is a multi-valued dictionary built from the
  \<open>key=value\<close> pairs of the query string in arrival order: every key maps to the list
  of its values, a new key goes to the end. \<open>dict(request.query_params)\<close> is that
  dictionary, here an association list in insertion order.
\<close>

type_synonym query_string = "(pystr \<times> pystr) list"
type_synonym params_dict = "(pystr \<times> pystr list) list"

fun appendlist :: "params_dict \<Rightarrow> pystr \<Rightarrow> pystr \<Rightarrow> params_dict" where
  "appendlist [] k v = [(k, [v])]"
| "appendlist ((k', vs) # d) k v =
     (if k' = k then (k', vs @ [v]) # d else (k', vs) # appendlist d k v)"

definition query_dict :: "query_string \<Rightarrow> params_dict" where
  "query_dict pairs = foldl (\<lambda>d (k, v). appendlist d k v) [] pairs"

text \<open>\<open>QueryDict.get(key)\<close>: the last value of the key's list, \<open>None\<close> without the key.\<close>

definition qget :: "query_string \<Rightarrow> pystr \<Rightarrow> pystr option" where
  "qget q k = (case map_of (query_dict q) k of
                 None \<Rightarrow> None
               | Some vs \<Rightarrow> (if vs = [] then None else Some (last vs)))"

text \<open>
  \<open>QueryDict.getlist(key)\<close>: the values the query string gives for the key, in
  arrival order.
\<close>

definition getlist :: "query_string \<Rightarrow> pystr \<Rightarrow> pystr list" where
  "getlist q k = map snd (filter (\<lambda>p. fst p = k) q)"

text \<open>A query string whose keys and values are sequences of Unicode scalar values.\<close>

definition wf_query :: "query_string \<Rightarrow> bool" where
  "wf_query q \<longleftrightarrow> list_all (\<lambda>p. wf_str (fst p) \<and> wf_str (snd p)) q"

section \<open>The cache key of the List endpoint\<close>

text \<open>
  \<open>json.dumps\<close> with its defaults (\<open>ensure_ascii=True\<close>, separators \<open>", "\<close>):
  a string is written between double quotes, every character outside the printable
  ASCII range, the backslash and the double quote escaped; a code point beyond the
  basic plane is written as a surrogate pair.
\<close>

definition hexdigit :: "nat \<Rightarrow> char" where
  "hexdigit d = ''0123456789abcdef'' ! d"

definition hex4 :: "nat \<Rightarrow> string" where
  "hex4 n = [hexdigit (n div 4096 mod 16), hexdigit (n div 256 mod 16),
             hexdigit (n div 16 mod 16), hexdigit (n mod 16)]"

definition escape :: "nat \<Rightarrow> string" where
  "escape n =
     (if n = 0x5C then [CHR 0x5C, CHR 0x5C]
      else if n = 0x22 then [CHR 0x5C, CHR 0x22]
      else if n = 0x08 then [CHR 0x5C, CHR ''b'']
      else if n = 0x0C then [CHR 0x5C, CHR ''f'']
      else if n = 0x0A then [CHR 0x5C, CHR ''n'']
      else if n = 0x0D then [CHR 0x5C, CHR ''r'']
      else if n = 0x09 then [CHR 0x5C, CHR ''t'']
      else if 0x20 \<le> n \<and> n \<le> 0x7E then [char_of n]
      else if n < 0x10000 then [CHR 0x5C, CHR ''u''] @ hex4 n
      else (let m = n - 0x10000;
                s1 = 0xD800 OR (drop_bit 10 m AND 0x3FF);
                s2 = 0xDC00 OR (m AND 0x3FF)
            in [CHR 0x5C, CHR ''u''] @ hex4 s1 @ [CHR 0x5C, CHR ''u''] @ hex4 s2))"

definition json_str :: "pystr \<Rightarrow> string" where
  "json_str s = [CHR 0x22] @ concat (map escape s) @ [CHR 0x22]"

fun join_items :: "string list \<Rightarrow> string" where
  "join_items [] = []"
| "join_items [x] = x"
| "join_items (x # y # ys) = x @ '', '' @ join_items (y # ys)"

definition json_array :: "string list \<Rightarrow> string" where
  "json_array items = ''['' @ join_items items @ '']''"

definition json_item :: "pystr \<times> pystr list \<Rightarrow> string" where
  "json_item kv = json_array [json_str (fst kv), json_array (map json_str (snd kv))]"

definition json_dumps :: "params_dict \<Rightarrow> string" where
  "json_dumps items = json_array (map json_item items)"

section \<open>The MD5 digest\<close>

text \<open>
  \<open>hashlib.md5(data).hexdigest()\<close> of the standard library, as RFC 1321 defines it:
  the message is padded to a multiple of 64 bytes, read as little-endian 32-bit words
  and folded block by block into four 32-bit registers.
\<close>

definition md5_shift :: "nat list" where
  "md5_shift =
    [7, 12, 17, 22, 7, 12, 17, 22, 7, 12, 17, 22, 7, 12, 17, 22,
     5, 9, 14, 20, 5, 9, 14, 20, 5, 9, 14, 20, 5, 9, 14, 20,
     4, 11, 16, 23, 4, 11, 16, 23, 4, 11, 16, 23, 4, 11, 16, 23,
     6, 10, 15, 21, 6, 10, 15, 21, 6, 10, 15, 21, 6, 10, 15, 21]"

definition md5_sine :: "32 word list" where
  "md5_sine =
    [0xD76AA478, 0xE8C7B756, 0x242070DB, 0xC1BDCEEE,
     0xF57C0FAF, 0x4787C62A, 0xA8304613, 0xFD469501,
     0x698098D8, 0x8B44F7AF, 0xFFFF5BB1, 0x895CD7BE,
     0x6B901122, 0xFD987193, 0xA679438E, 0x49B40821,
     0xF61E2562, 0xC040B340, 0x265E5A51, 0xE9B6C7AA,
     0xD62F105D, 0x02441453, 0xD8A1E681, 0xE7D3FBC8,
     0x21E1CDE6, 0xC33707D6, 0xF4D50D87, 0x455A14ED,
     0xA9E3E905, 0xFCEFA3F8, 0x676F02D9, 0x8D2A4C8A,
     0xFFFA3942, 0x8771F681, 0x6D9D6122, 0xFDE5380C,
     0xA4BEEA44, 0x4BDECFA9, 0xF6BB4B60, 0xBEBFBC70,
     0x289B7EC6, 0xEAA127FA, 0xD4EF3085, 0x04881D05,
     0xD9D4D039, 0xE6DB99E5, 0x1FA27CF8, 0xC4AC5665,
     0xF4292244, 0x432AFF97, 0xAB9423A7, 0xFC93A039,
     0x655B59C3, 0x8F0CCC92, 0xFFEFF47D, 0x85845DD1,
     0x6FA87E4F, 0xFE2CE6E0, 0xA3014314, 0x4E0811A1,
     0xF7537E82, 0xBD3AF235, 0x2AD7D2BB, 0xEB86D391]"

definition md5_mix :: "nat \<Rightarrow> 32 word \<Rightarrow> 32 word \<Rightarrow> 32 word \<Rightarrow> 32 word" where
  "md5_mix i b c d =
     (if i < 16 then (b AND c) OR (NOT b AND d)
      else if i < 32 then (d AND b) OR (NOT d AND c)
      else if i < 48 then b XOR c XOR d
      else c XOR (b OR NOT d))"

definition md5_index :: "nat \<Rightarrow> nat" where
  "md5_index i =
     (if i < 16 then i
      else if i < 32 then (5 * i + 1) mod 16
      else if i < 48 then (3 * i + 5) mod 16
      else (7 * i) mod 16)"

type_synonym md5_state = "32 word \<times> 32 word \<times> 32 word \<times> 32 word"

definition md5_step :: "32 word list \<Rightarrow> md5_state \<Rightarrow> nat \<Rightarrow> md5_state" where
  "md5_step m st i =
     (case st of (a, b, c, d) \<Rightarrow>
        (d, b + word_rotl (md5_shift ! i) (md5_mix i b c d + a + md5_sine ! i + m ! md5_index i), b, c))"

definition md5_block :: "md5_state \<Rightarrow> 32 word list \<Rightarrow> md5_state" where
  "md5_block st m =
     (case st of (a0, b0, c0, d0) \<Rightarrow>
        (case foldl (md5_step m) st [0..<64] of (a, b, c, d) \<Rightarrow>
           (a0 + a, b0 + b, c0 + c, d0 + d)))"

definition le_bytes :: "nat \<Rightarrow> nat \<Rightarrow> nat list" where
  "le_bytes k n = map (\<lambda>i. n div 256 ^ i mod 256) [0..<k]"

definition md5_pad :: "nat list \<Rightarrow> nat list" where
  "md5_pad bs = bs @ [0x80] @ replicate ((55 + 64 - length bs mod 64) mod 64) 0
                   @ le_bytes 8 (8 * length bs mod 2 ^ 64)"

fun le_words :: "nat list \<Rightarrow> 32 word list" where
  "le_words (b0 # b1 # b2 # b3 # bs) =
     of_nat (b0 + 256 * b1 + 65536 * b2 + 16777216 * b3) # le_words bs"
| "le_words _ = []"

fun blocks16 :: "nat \<Rightarrow> 'a list \<Rightarrow> 'a list list" where
  "blocks16 0 ws = []"
| "blocks16 (Suc n) ws = take 16 ws # blocks16 n (drop 16 ws)"

definition hex_byte :: "nat \<Rightarrow> string" where
  "hex_byte b = [hexdigit (b div 16), hexdigit (b mod 16)]"

definition md5_hexdigest :: "string \<Rightarrow> string" where
  "md5_hexdigest s =
     (let ws = le_words (md5_pad (map of_char s));
          st = foldl md5_block (0x67452301, 0xEFCDAB89, 0x98BADCFE, 0x10325476)
                 (blocks16 (length ws div 16) ws)
      in case st of (a, b, c, d) \<Rightarrow>
           concat (map hex_byte (concat (map (\<lambda>w. le_bytes 4 (unat w)) [a, b, c, d]))))"

text \<open>
  \<open>params_key = json.dumps(sorted(params.items()), sort_keys=True)\<close>. The items are
  (key, list of values) tuples, compared as Python compares tuples: by key, then by
  the value lists.
\<close>

definition params_key :: "query_string \<Rightarrow> string" where
  "params_key q = json_dumps (sort (query_dict q))"

text \<open>
  \<open>cache_key = f"story_list_{hashlib.md5(params_key.encode()).hexdigest()}"\<close>.
  The digest is the standard library's; it is the parameter \<open>md5\<close>, from the bytes
  of the (ASCII) text to the hexadecimal digest.
\<close>

definition cache_key :: "(string \<Rightarrow> string) \<Rightarrow> query_string \<Rightarrow> string" where
  "cache_key md5 q = ''story_list_'' @ md5 (params_key q)"

section \<open>Errors\<close>

datatype error =
    NotFound
  | DoesNotExist
  | MultipleObjectsReturned
  | InvalidPage
  | InvalidCursor
  | ValidationError
  | CacheUnavailable

section \<open>The data model\<close>

text \<open>
  The rows the views read. A user is identified by \<open>uuid\<close>, its primary key; a story
  refers to its owner by that key; the history table of the audit subsystem holds one
  row per recorded change, with the \<open>uuid\<close> of the user it is about. The media
  descriptors and counters of the real tables carry no logic here and are left out.
\<close>

record user =
  uuid :: pystr
  username :: pystr
  full_name :: pystr
  biography :: pystr

record story =
  story_id :: pystr
  user_id :: pystr
  created_at :: nat
  embedding :: "real list option"

record historical_user =
  history_id :: nat
  history_uuid :: pystr

record database =
  users :: "user list"
  stories :: "story list"
  user_history :: "historical_user list"

text \<open>
  \<open>InstagramUser.objects.annotate(has_stories=Exists(...), has_history=Exists(...))\<close>:
  every user row with the two existence flags, evaluated on the tables as they are
  when the query runs.
\<close>

record annotated_user = user +
  has_stories :: bool
  has_history :: bool

definition annotate :: "database \<Rightarrow> user \<Rightarrow> annotated_user" where
  "annotate db u =
     \<lparr> uuid = uuid u, username = username u, full_name = full_name u,
       biography = biography u,
       has_stories = list_ex (\<lambda>s. user_id s = uuid u) (stories db),
       has_history = list_ex (\<lambda>h. history_uuid h = uuid u) (user_history db) \<rparr>"

definition annotated_users :: "database \<Rightarrow> annotated_user list" where
  "annotated_users db = map (annotate db) (users db)"

text \<open>
  \<open>prefetch_related(Prefetch("user", queryset=annotated_users))\<close>: every story of a
  result comes with the annotated row of its owner.
\<close>

record story_row =
  the_story :: story
  the_user :: "annotated_user option"

definition prefetch_user :: "database \<Rightarrow> story \<Rightarrow> story_row" where
  "prefetch_user db s =
     \<lparr> the_story = s,
       the_user = find (\<lambda>u. uuid u = user_id s) (annotated_users db) \<rparr>"

text \<open>
  \<open>order_by("-key")\<close>. The datastore returns the rows sorted by descending key and
  promises nothing about rows with equal keys: every arrangement of the rows whose
  keys never increase is a result the query may have.
\<close>

definition ordered_by_desc :: "('a \<Rightarrow> 'k::linorder) \<Rightarrow> 'a list \<Rightarrow> 'a list \<Rightarrow> bool" where
  "ordered_by_desc key rows out \<longleftrightarrow>
     mset out = mset rows \<and> sorted_wrt (\<lambda>a b. key b \<le> key a) out"


text \<open>\<open>Story.objects.get(story_id=story_id)\<close>.\<close>

definition objects_get :: "story list \<Rightarrow> pystr \<Rightarrow> error + story" where
  "objects_get rows sid =
     (case filter (\<lambda>s. story_id s = sid) rows of
        [] \<Rightarrow> Inl DoesNotExist
      | [s] \<Rightarrow> Inr s
      | _ \<Rightarrow> Inl MultipleObjectsReturned)"

section \<open>The Detail endpoint\<close>

text \<open>
  \<open>StoryDetailView\<close>: a retrieve view with \<open>lookup_field = "story_id"\<close>. The
  framework looks the object up in \<open>get_queryset()\<close> by that field and answers 404
  when there is none.
\<close>

definition detail_get_queryset :: "database \<Rightarrow> story_row list" where
  "detail_get_queryset db = map (prefetch_user db) (stories db)"

definition detail_retrieve :: "database \<Rightarrow> pystr \<Rightarrow> error + story_row" where
  "detail_retrieve db sid =
     (case filter (\<lambda>r. story_id (the_story r) = sid) (detail_get_queryset db) of
        [] \<Rightarrow> Inl NotFound
      | [r] \<Rightarrow> Inr r
      | _ \<Rightarrow> Inl MultipleObjectsReturned)"

section \<open>The Similar endpoint\<close>

text \<open>
  \<open>L2Distance\<close>: the Euclidean distance of two vectors. The column has a fixed
  dimension, so the two vectors always have the same length.
\<close>

definition l2_distance :: "real list \<Rightarrow> real list \<Rightarrow> real" where
  "l2_distance a b = sqrt (\<Sum>(x, y)\<leftarrow>zip a b. (x - y)\<^sup>2)"

text \<open>
  The annotation \<open>similarity_score = 1 - L2Distance("embedding", source.embedding)\<close>.
  It is only ever computed on rows that passed \<open>embedding__isnull=False\<close>.
\<close>

definition distance_to :: "real list \<Rightarrow> story_row \<Rightarrow> real" where
  "distance_to e r = l2_distance (the (embedding (the_story r))) e"

definition similarity_score :: "real list \<Rightarrow> story_row \<Rightarrow> real" where
  "similarity_score e r = 1 - distance_to e r"

definition similar_candidates :: "database \<Rightarrow> pystr \<Rightarrow> story_row list" where
  "similar_candidates db sid =
     map (prefetch_user db)
       (filter (\<lambda>s. story_id s \<noteq> sid) (filter (\<lambda>s. embedding s \<noteq> None) (stories db)))"

text \<open>
  \<open>StorySimilarView.get_queryset\<close>, as the relation between the tables, the
  \<open>story_id\<close> of the URL and an outcome: an error raised, or the rows the queryset
  evaluates to.
\<close>

definition similar_get_queryset :: "database \<Rightarrow> pystr \<Rightarrow> error + story_row list \<Rightarrow> bool" where
  "similar_get_queryset db sid out =
     (case objects_get (stories db) sid of
        Inl e \<Rightarrow> (if e = DoesNotExist then out = Inr [] else out = Inl e)
      | Inr source_story \<Rightarrow>
          (case embedding source_story of
             None \<Rightarrow> out = Inr []
           | Some e \<Rightarrow>
               (case out of
                  Inl _ \<Rightarrow> False
                | Inr rows \<Rightarrow>
                    ordered_by_desc (similarity_score e) (similar_candidates db sid) rows)))"

section \<open>Pagination\<close>

text \<open>
  Modelled from the spec: the two pagination classes (\<open>instagram/paginations.py\<close>)
  are not among the sources. The specification fixes the page-size negotiation: the
  default is 20, a client-supplied \<open>page_size\<close> overrides it up to the ceiling of
  100, and a \<open>page_size\<close> below 1 or non-numeric falls back to the default.
  A numeric parameter is a decimal integer, optionally signed.
\<close>

definition digit_of :: "nat \<Rightarrow> nat option" where
  "digit_of c = (if 48 \<le> c \<and> c \<le> 57 then Some (c - 48) else None)"

fun parse_digits :: "nat \<Rightarrow> pystr \<Rightarrow> nat option" where
  "parse_digits acc [] = Some acc"
| "parse_digits acc (c # cs) =
     (case digit_of c of None \<Rightarrow> None | Some d \<Rightarrow> parse_digits (10 * acc + d) cs)"

definition parse_nat :: "pystr \<Rightarrow> nat option" where
  "parse_nat s = (if s = [] then None else parse_digits 0 s)"

definition parse_int :: "pystr \<Rightarrow> int option" where
  "parse_int s =
     (case s of
        [] \<Rightarrow> None
      | c # cs \<Rightarrow>
          if c = 45 then map_option (\<lambda>n. - int n) (parse_nat cs)
          else if c = 43 then map_option int (parse_nat cs)
          else map_option int (parse_nat s))"

definition default_page_size :: nat where
  "default_page_size = 20"

definition max_page_size :: nat where
  "max_page_size = 100"

definition get_page_size :: "query_string \<Rightarrow> nat" where
  "get_page_size q =
     (case qget q (py ''page_size'') of
        None \<Rightarrow> default_page_size
      | Some s \<Rightarrow>
          (case parse_int s of
             None \<Rightarrow> default_page_size
           | Some n \<Rightarrow> if n < 1 then default_page_size else min (nat n) max_page_size))"

text \<open>
  A page of results. \<open>count\<close> is present for numbered pages only; a link is the
  page number or the cursor of the neighbouring page, \<open>None\<close> at a boundary.
\<close>

datatype cursor = After nat | Before nat

datatype link = PageLink nat | CursorLink cursor

record 'a page =
  count :: "nat option"
  next_link :: "link option"
  previous_link :: "link option"
  results :: "'a list"

text \<open>
  Modelled from the spec: numbered pages for the Similar endpoint. Pages are 1-based;
  page 1 of an empty result set is valid and empty; a page beyond the last one is an
  error. A \<open>page\<close> parameter that is not a positive number names no page.
\<close>

definition num_pages :: "nat \<Rightarrow> nat \<Rightarrow> nat" where
  "num_pages n psize = max 1 ((n + psize - 1) div psize)"

definition page_number :: "query_string \<Rightarrow> nat option" where
  "page_number q =
     (case qget q (py ''page'') of
        None \<Rightarrow> Some 1
      | Some s \<Rightarrow>
          (case parse_int s of
             None \<Rightarrow> None
           | Some n \<Rightarrow> if n < 1 then None else Some (nat n)))"

definition page_number_paginate :: "query_string \<Rightarrow> 'a list \<Rightarrow> error + 'a page" where
  "page_number_paginate q rows =
     (let psize = get_page_size q in
      case page_number q of
        None \<Rightarrow> Inl InvalidPage
      | Some n \<Rightarrow>
          if n > num_pages (length rows) psize then Inl InvalidPage
          else Inr \<lparr> count = Some (length rows),
                     next_link = (if n < num_pages (length rows) psize
                                  then Some (PageLink (n + 1)) else None),
                     previous_link = (if 1 < n then Some (PageLink (n - 1)) else None),
                     results = take psize (drop ((n - 1) * psize) rows) \<rparr>)"

text \<open>
  Modelled from the spec: keyset pages for the List endpoint, over rows in descending
  order of the key. The cursor token is opaque; \<open>decode\<close> reads it as the last-seen
  key and the direction, and a token it cannot read is an error. Without a cursor
  the page starts at the first row and has no previous page; a page after which no
  row remains has no next page.
\<close>

definition cursor_paginate ::
  "(pystr \<Rightarrow> cursor option) \<Rightarrow> ('a \<Rightarrow> nat) \<Rightarrow> query_string \<Rightarrow> 'a list \<Rightarrow> error + 'a page" where
  "cursor_paginate decode key q rows =
     (let psize = get_page_size q;
          build = (\<lambda>before window after.
             \<lparr> count = None,
               next_link = (case after of [] \<Rightarrow> None
                            | _ \<Rightarrow> (case window of [] \<Rightarrow> None
                                    | _ \<Rightarrow> Some (CursorLink (After (key (last window)))))),
               previous_link = (case before of [] \<Rightarrow> None
                            | _ \<Rightarrow> (case window of [] \<Rightarrow> None
                                    | r # _ \<Rightarrow> Some (CursorLink (Before (key r))))),
               results = window \<rparr>)
      in case qget q (py ''cursor'') of
           None \<Rightarrow> Inr (build [] (take psize rows) (drop psize rows))
         | Some token \<Rightarrow>
             (case decode token of
                None \<Rightarrow> Inl InvalidCursor
              | Some (After p) \<Rightarrow>
                  (let rest = filter (\<lambda>r. key r < p) rows
                   in Inr (build (filter (\<lambda>r. p \<le> key r) rows) (take psize rest) (drop psize rest)))
              | Some (Before p) \<Rightarrow>
                  (let front = filter (\<lambda>r. p < key r) rows;
                       k = length front - psize
                   in Inr (build (take k front) (drop k front)
                             (filter (\<lambda>r. key r \<le> p) rows)))))"

section \<open>Filtering the List endpoint\<close>

text \<open>
  \<open>filters.SearchFilter\<close> with
  \<open>search_fields = ["user__username", "user__full_name", "user__biography"]\<close>.
  The framework splits the \<open>search\<close> parameter into terms at white space and
  commas; a row is kept when every term is contained, ignoring case, in at least one
  of the fields. Case is folded on the ASCII letters.
\<close>

definition lower :: "nat \<Rightarrow> nat" where
  "lower c = (if 65 \<le> c \<and> c \<le> 90 then c + 32 else c)"

fun contains :: "'a list \<Rightarrow> 'a list \<Rightarrow> bool" where
  "contains [] t = (t = [])"
| "contains (x # xs) t = (prefix t (x # xs) \<or> contains xs t)"

definition icontains :: "pystr \<Rightarrow> pystr \<Rightarrow> bool" where
  "icontains field term = contains (map lower field) (map lower term)"

definition is_separator :: "nat \<Rightarrow> bool" where
  "is_separator c \<longleftrightarrow> c = 44 \<or> c = 32 \<or> (9 \<le> c \<and> c \<le> 13)"

fun split_terms :: "pystr \<Rightarrow> pystr \<Rightarrow> pystr list" where
  "split_terms cur [] = (if cur = [] then [] else [cur])"
| "split_terms cur (c # cs) =
     (if is_separator c then (if cur = [] then split_terms [] cs else cur # split_terms [] cs)
      else split_terms (cur @ [c]) cs)"

definition get_search_terms :: "query_string \<Rightarrow> pystr list" where
  "get_search_terms q =
     (case qget q (py ''search'') of
        None \<Rightarrow> []
      | Some s \<Rightarrow> split_terms [] (filter (\<lambda>c. c \<noteq> 0) s))"

definition matches_term :: "story_row \<Rightarrow> pystr \<Rightarrow> bool" where
  "matches_term r term =
     (case the_user r of
        None \<Rightarrow> False
      | Some u \<Rightarrow> icontains (username u) term \<or> icontains (full_name u) term
                  \<or> icontains (biography u) term)"

definition search_filter :: "query_string \<Rightarrow> story_row list \<Rightarrow> story_row list" where
  "search_filter q rows =
     filter (\<lambda>r. list_all (matches_term r) (get_search_terms q)) rows"

text \<open>
  \<open>DjangoFilterBackend\<close> with \<open>filterset_fields = ["user"]\<close>: an exact match on the
  owner's key. An empty value does not filter. The specification leaves open whether
  a value that is no user's key is rejected or selects no row; here it is rejected.
\<close>

definition user_filter :: "database \<Rightarrow> query_string \<Rightarrow> story_row list \<Rightarrow> error + story_row list" where
  "user_filter db q rows =
     (case qget q (py ''user'') of
        None \<Rightarrow> Inr rows
      | Some v \<Rightarrow>
          if v = [] then Inr rows
          else if list_ex (\<lambda>u. uuid u = v) (users db)
          then Inr (filter (\<lambda>r. user_id (the_story r) = v) rows)
          else Inl ValidationError)"

text \<open>
  \<open>StoryListView.get_queryset\<close>, as the relation between the tables and the rows the
  queryset evaluates to.
\<close>

definition list_get_queryset :: "database \<Rightarrow> story_row list \<Rightarrow> bool" where
  "list_get_queryset db rows \<longleftrightarrow>
     ordered_by_desc (\<lambda>r. created_at (the_story r)) (map (prefetch_user db) (stories db)) rows"

text \<open>
  \<open>ListAPIView.list\<close> on the rows of the queryset: filter, paginate, answer the page.
\<close>

definition list_api_view ::
  "(pystr \<Rightarrow> cursor option) \<Rightarrow> database \<Rightarrow> story_row list \<Rightarrow> query_string
     \<Rightarrow> error + story_row page" where
  "list_api_view decode db rows q =
     (case user_filter db q (search_filter q rows) of
        Inl e \<Rightarrow> Inl e
      | Inr kept \<Rightarrow> cursor_paginate decode (\<lambda>r. created_at (the_story r)) q kept)"

text \<open>
  \<open>StorySimilarView\<close> on an outcome of its queryset: an error is the answer, rows are
  paginated by page number.
\<close>

definition similar_list :: "query_string \<Rightarrow> error + story_row list \<Rightarrow> error + story_row page" where
  "similar_list q qs = (case qs of Inl e \<Rightarrow> Inl e | Inr rows \<Rightarrow> page_number_paginate q rows)"

section \<open>The List endpoint and its cache\<close>

text \<open>
  The cache is a collaborator with two operations, \<open>get(key)\<close> and
  \<open>set(key, value, timeout)\<close>; either may raise. \<open>get\<close> answers \<open>None\<close> when
  there is no live entry.
\<close>

record ('c, 'p) cache_backend =
  cache_get :: "'c \<Rightarrow> string \<Rightarrow> error + 'p option"
  cache_set :: "'c \<Rightarrow> string \<Rightarrow> 'p \<Rightarrow> nat \<Rightarrow> error + 'c"

text \<open>
  \<open>StoryListView.list\<close>. \<open>super_list\<close> is \<open>super().list(request)\<close>, the
  computation of the response through the queryset, the filters and the paginator;
  it raises or returns the response data. The result is the outcome of the request
  and the cache afterwards.
\<close>

definition list_view ::
  "('c, 'p) cache_backend \<Rightarrow> (string \<Rightarrow> string) \<Rightarrow> (query_string \<Rightarrow> error + 'p)
     \<Rightarrow> 'c \<Rightarrow> query_string \<Rightarrow> (error + 'p) \<times> 'c" where
  "list_view cache md5 super_list c request =
     (let key = cache_key md5 request in
      case cache_get cache c key of
        Inl e \<Rightarrow> (Inl e, c)
      | Inr (Some cached_response) \<Rightarrow> (Inr cached_response, c)
      | Inr None \<Rightarrow>
          (case super_list request of
             Inl e \<Rightarrow> (Inl e, c)
           | Inr data \<Rightarrow>
               (case cache_set cache c key data 30 of
                  Inl e \<Rightarrow> (Inl e, c)
                | Inr c' \<Rightarrow> (Inr data, c'))))"

text \<open>
  A key-value store with a time to live per entry: an entry written at time \<open>now\<close>
  with timeout \<open>t\<close> is live at the times before \<open>now + t\<close>.
\<close>

type_synonym 'p ttl_store = "string \<rightharpoonup> ('p \<times> nat)"

definition store_get :: "nat \<Rightarrow> 'p ttl_store \<Rightarrow> string \<Rightarrow> 'p option" where
  "store_get now c k = (case c k of
                          None \<Rightarrow> None
                        | Some (v, expiry) \<Rightarrow> if now < expiry then Some v else None)"

definition store_set :: "nat \<Rightarrow> 'p ttl_store \<Rightarrow> string \<Rightarrow> 'p \<Rightarrow> nat \<Rightarrow> 'p ttl_store" where
  "store_set now c k v timeout = c(k \<mapsto> (v, now + timeout))"

definition ttl_cache :: "nat \<Rightarrow> ('p ttl_store, 'p) cache_backend" where
  "ttl_cache now = \<lparr> cache_get = (\<lambda>c k. Inr (store_get now c k)),
                     cache_set = (\<lambda>c k v t. Inr (store_set now c k v t)) \<rparr>"

text \<open>A store that cannot be reached: both operations raise.\<close>

definition unavailable_cache :: "('c, 'p) cache_backend" where
  "unavailable_cache = \<lparr> cache_get = (\<lambda>c k. Inl CacheUnavailable),
                         cache_set = (\<lambda>c k v t. Inl CacheUnavailable) \<rparr>"

text \<open>A store that answers reads with a miss and raises on every write.\<close>

definition write_failing_cache :: "('c, 'p) cache_backend" where
  "write_failing_cache = \<lparr> cache_get = (\<lambda>c k. Inr None),
                           cache_set = (\<lambda>c k v t. Inl CacheUnavailable) \<rparr>"

text \<open>
  The two flags in the specification's words, on the tables as they are now:
  \<open>has_stories\<close> iff at least one story refers to the user, \<open>has_history\<close> iff at
  least one history row exists for the user.
\<close>

definition flags_current :: "database \<Rightarrow> annotated_user \<Rightarrow> bool" where
  "flags_current db u \<longleftrightarrow>
     (has_stories u \<longleftrightarrow> (\<exists>s \<in> set (stories db). user_id s = uuid u))
     \<and> (has_history u \<longleftrightarrow> (\<exists>h \<in> set (user_history db). history_uuid h = uuid u))"

section \<open>A small database\<close>

text \<open>
  One user and four stories: \<open>story_b\<close> and \<open>story_c\<close> lie at the same distance
  from \<open>story_a\<close>, \<open>story_d\<close> has no embedding. The user has no history row in
  \<open>example_db\<close> and one in \<open>example_db_later\<close>.
\<close>

definition example_user :: user where
  "example_user = \<lparr> uuid = py ''u1'', username = py ''johndoe'',
                     full_name = py ''John Doe'', biography = py ''hello'' \<rparr>"

definition story_a :: story where
  "story_a = \<lparr> story_id = py ''a'', user_id = py ''u1'', created_at = 4,
                embedding = Some [0] \<rparr>"

definition story_b :: story where
  "story_b = \<lparr> story_id = py ''b'', user_id = py ''u1'', created_at = 3,
                embedding = Some [1] \<rparr>"

definition story_c :: story where
  "story_c = \<lparr> story_id = py ''c'', user_id = py ''u1'', created_at = 2,
                embedding = Some [-1] \<rparr>"

definition story_d :: story where
  "story_d = \<lparr> story_id = py ''d'', user_id = py ''u1'', created_at = 1,
                embedding = None \<rparr>"

definition example_db :: database where
  "example_db = \<lparr> users = [example_user],
                   stories = [story_a, story_b, story_c, story_d],
                   user_history = [] \<rparr>"

definition example_db_later :: database where
  "example_db_later = example_db \<lparr> user_history :=
      [\<lparr> history_id = 1, history_uuid = py ''u1'' \<rparr>] \<rparr>"

text \<open>
  The rows and the first page of the List endpoint on \<open>example_db\<close>, and the cache
  after that page was written at time 0.
\<close>

definition example_rows :: "story_row list" where
  "example_rows = map (prefetch_user example_db) [story_a, story_b, story_c, story_d]"

definition example_page :: "story_row page" where
  "example_page = \<lparr> count = None, next_link = None, previous_link = None,
                     results = example_rows \<rparr>"

definition example_cache :: "story_row page ttl_store" where
  "example_cache = Map.empty(cache_key md5_hexdigest [] \<mapsto> (example_page, 30))"


section \<open>Properties of the List endpoint's cache\<close>

lemma store_get_set:
  "store_get t (store_set now c k v timeout) k' =
     (if k' = k then (if t < now + timeout then Some v else None) else store_get t c k')"
  by (simp add: store_get_def store_set_def)

text \<open>
  Claim C2. When a live entry exists under the computed key, the List endpoint returns
  the cached payload as it is, whatever \<open>super().list\<close> would compute, and leaves the
  cache as it was. When no live entry exists and the computation succeeds, the
  endpoint returns the computed data and writes that same data under the computed
  key with a timeout of 30: the entry answers reads with exactly that data at every
  time before \<open>now + 30\<close> and is gone from then on.
\<close>

theorem list_view_read_through:
  "(store_get now c (cache_key md5 req) = Some p \<longrightarrow>
      list_view (ttl_cache now) md5 super_list c req = (Inr p, c))
   \<and> (store_get now c (cache_key md5 req) = None \<and> super_list req = Inr d \<longrightarrow>
      list_view (ttl_cache now) md5 super_list c req
        = (Inr d, store_set now c (cache_key md5 req) d 30)
      \<and> (\<forall>t. store_get t (store_set now c (cache_key md5 req) d 30) (cache_key md5 req)
             = (if t < now + 30 then Some d else None)))"
  by (simp add: list_view_def ttl_cache_def store_get_set)

theorem list_view_read_through_witness:
  "list_view (ttl_cache 5) md5_hexdigest (\<lambda>q. Inr (1::nat))
      (Map.empty(cache_key md5_hexdigest [] \<mapsto> (7::nat, 20))) []
     = (Inr 7, Map.empty(cache_key md5_hexdigest [] \<mapsto> (7, 20)))
   \<and> list_view (ttl_cache 5) md5_hexdigest (\<lambda>q. Inr (1::nat)) Map.empty []
     = (Inr 1, Map.empty(cache_key md5_hexdigest [] \<mapsto> (1, 35)))"
  using list_view_read_through
      [of 5 "Map.empty(cache_key md5_hexdigest [] \<mapsto> (7::nat, 20))" md5_hexdigest "[]" 7
          "\<lambda>q. Inr (1::nat)"]
    list_view_read_through [of 5 "Map.empty" md5_hexdigest "[]" 7 "\<lambda>q. Inr (1::nat)" 1]
  by (simp add: store_get_def store_set_def)

text \<open>
  Claim C3, as the code has it. The endpoint calls the cache without any handler, so
  a failure of the store is the failure of the request: when the read raises, the
  request fails with that error and nothing is computed; when the read misses, the
  computation succeeds and the write raises, the request fails with the error of the
  write.
\<close>

theorem list_view_cache_failure:
  "(cache_get cache c (cache_key md5 req) = Inl e \<longrightarrow>
      list_view cache md5 super_list c req = (Inl e, c))
   \<and> (cache_get cache c (cache_key md5 req) = Inr None \<and> super_list req = Inr d
        \<and> cache_set cache c (cache_key md5 req) d 30 = Inl e \<longrightarrow>
      list_view cache md5 super_list c req = (Inl e, c))"
  by (simp add: list_view_def)

theorem list_view_cache_failure_witness:
  "list_view unavailable_cache md5_hexdigest (\<lambda>q. Inr (1::nat)) (0::nat) []
     = (Inl CacheUnavailable, 0)
   \<and> list_view write_failing_cache md5_hexdigest (\<lambda>q. Inr (1::nat)) (0::nat) []
     = (Inl CacheUnavailable, 0)"
  using list_view_cache_failure
      [of unavailable_cache "0::nat" md5_hexdigest "[]" CacheUnavailable "\<lambda>q. Inr (1::nat)" 1]
    list_view_cache_failure
      [of write_failing_cache "0::nat" md5_hexdigest "[]" CacheUnavailable "\<lambda>q. Inr (1::nat)" 1]
  by (simp add: unavailable_cache_def write_failing_cache_def)

text \<open>
  The claim as the specification words it (a failing store never fails the request)
  does not hold: with a store that cannot be reached, and with one that only refuses
  writes, a request whose computation would succeed ends in the store's error.
\<close>

theorem list_view_fail_open_counterexample:
  "list_view unavailable_cache md5_hexdigest (\<lambda>q. Inr (1::nat)) () []
     = (Inl CacheUnavailable, ())
   \<and> list_view write_failing_cache md5_hexdigest (\<lambda>q. Inr (1::nat)) () []
     = (Inl CacheUnavailable, ())"
  by (simp add: list_view_def unavailable_cache_def write_failing_cache_def)

text \<open>
  Claim C10. On a cache miss, when computing the response raises, the request fails
  with that error and the cache is left exactly as it was: the write comes only after
  a successful computation.
\<close>

theorem list_view_error_not_cached:
  "cache_get cache c (cache_key md5 req) = Inr None \<Longrightarrow> super_list req = Inl e \<Longrightarrow>
   list_view cache md5 super_list c req = (Inl e, c)"
  by (simp add: list_view_def)

theorem list_view_error_not_cached_witness:
  "list_view (ttl_cache 5) md5_hexdigest (\<lambda>q. (Inl InvalidCursor :: error + nat)) Map.empty []
     = (Inl InvalidCursor, Map.empty)"
  using list_view_error_not_cached
      [of "ttl_cache 5" "Map.empty :: nat ttl_store" md5_hexdigest "[]"
          "\<lambda>q. Inl InvalidCursor" InvalidCursor]
  by (simp add: ttl_cache_def store_get_def)

section \<open>Properties of the Similar endpoint\<close>

lemma sorted_wrt_desc_map:
  "sorted_wrt (\<lambda>a b. key b \<le> key a) xs \<longleftrightarrow> sorted_wrt (\<lambda>x y. y \<le> x) (map key xs)"
  by (simp add: sorted_wrt_map)

lemma ordered_by_desc_total: "\<exists>out. ordered_by_desc key rows out"
proof -
  have "sorted (map key (sort_key key rows))" by (rule sorted_sort_key)
  then have "sorted_wrt (\<lambda>a b. key a \<le> key b) (sort_key key rows)"
    by (simp add: sorted_map)
  then have "sorted_wrt (\<lambda>a b. key b \<le> key a) (rev (sort_key key rows))"
    by (simp add: sorted_wrt_rev)
  then have "ordered_by_desc key rows (rev (sort_key key rows))"
    by (simp add: ordered_by_desc_def)
  then show ?thesis ..
qed

lemma objects_get_none:
  "filter (\<lambda>s. story_id s = sid) rows = [] \<Longrightarrow> objects_get rows sid = Inl DoesNotExist"
  by (simp add: objects_get_def)

lemma similar_get_queryset_total: "\<exists>out. similar_get_queryset db sid out"
proof (cases "objects_get (stories db) sid")
  case (Inl e)
  then show ?thesis by (cases "e = DoesNotExist") (simp_all add: similar_get_queryset_def)
next
  case (Inr src)
  show ?thesis
  proof (cases "embedding src")
    case None
    with Inr show ?thesis by (simp add: similar_get_queryset_def)
  next
    case (Some e)
    obtain rows where "ordered_by_desc (similarity_score e) (similar_candidates db sid) rows"
      using ordered_by_desc_total by blast
    then have "similar_get_queryset db sid (Inr rows)"
      using Inr Some by (simp add: similar_get_queryset_def)
    then show ?thesis ..
  qed
qed

lemma similar_get_queryset_ranked:
  "objects_get (stories db) sid = Inr src \<Longrightarrow> embedding src = Some e \<Longrightarrow>
   similar_get_queryset db sid out \<longleftrightarrow>
     (\<exists>rows. out = Inr rows \<and> ordered_by_desc (similarity_score e) (similar_candidates db sid) rows)"
  by (cases out) (simp_all add: similar_get_queryset_def)

lemma the_story_prefetch: "map the_story (map (prefetch_user db) xs) = xs"
  by (induction xs) (simp_all add: prefetch_user_def)

text \<open>
  Claim C5. For a source story that exists and has an embedding, the Similar queryset
  always evaluates to rows, and whatever order the datastore picks, the rows are
  exactly the stories other than the source whose embedding is not null, each once:
  the source never appears, and no story without an embedding appears.
\<close>

theorem similar_result_set:
  assumes "objects_get (stories db) sid = Inr src" and "embedding src = Some e"
  shows "(\<exists>out. similar_get_queryset db sid out)
    \<and> (\<forall>out. similar_get_queryset db sid out \<longrightarrow>
         (\<exists>rows. out = Inr rows
            \<and> mset (map the_story rows)
                = mset (filter (\<lambda>s. story_id s \<noteq> sid \<and> embedding s \<noteq> None) (stories db))
            \<and> set (map the_story rows)
                = {s \<in> set (stories db). story_id s \<noteq> sid \<and> embedding s \<noteq> None}
            \<and> src \<notin> set (map the_story rows)
            \<and> list_all (\<lambda>r. story_id (the_story r) \<noteq> sid \<and> embedding (the_story r) \<noteq> None) rows))"
proof (intro conjI allI impI)
  show "\<exists>out. similar_get_queryset db sid out" by (rule similar_get_queryset_total)
next
  fix out assume "similar_get_queryset db sid out"
  then obtain rows where out: "out = Inr rows"
    and ord: "ordered_by_desc (similarity_score e) (similar_candidates db sid) rows"
    using assms by (auto simp: similar_get_queryset_ranked)
  from ord have m: "mset rows = mset (similar_candidates db sid)"
    by (simp add: ordered_by_desc_def)
  have "mset (map the_story rows) = image_mset the_story (mset rows)" by simp
  also have "\<dots> = mset (map the_story (similar_candidates db sid))" by (simp add: m)
  also have "\<dots> = mset (filter (\<lambda>s. story_id s \<noteq> sid \<and> embedding s \<noteq> None) (stories db))"
    unfolding similar_candidates_def the_story_prefetch by (simp add: conj_commute)
  finally have ms: "mset (map the_story rows)
      = mset (filter (\<lambda>s. story_id s \<noteq> sid \<and> embedding s \<noteq> None) (stories db))" .
  then have st: "set (map the_story rows)
      = {s \<in> set (stories db). story_id s \<noteq> sid \<and> embedding s \<noteq> None}"
    using mset_eq_setD [OF ms] by simp
  have srcid: "story_id src = sid"
  proof -
    from assms(1) have "filter (\<lambda>s. story_id s = sid) (stories db) = [src]"
      by (auto simp: objects_get_def split: list.splits)
    then have "src \<in> set (filter (\<lambda>s. story_id s = sid) (stories db))" by simp
    then show ?thesis by simp
  qed
  have nsrc: "src \<notin> set (map the_story rows)" using st srcid by auto
  have la: "list_all (\<lambda>r. story_id (the_story r) \<noteq> sid \<and> embedding (the_story r) \<noteq> None) rows"
    using st by (auto simp: list_all_iff)
  show "\<exists>rows. out = Inr rows
            \<and> mset (map the_story rows)
                = mset (filter (\<lambda>s. story_id s \<noteq> sid \<and> embedding s \<noteq> None) (stories db))
            \<and> set (map the_story rows)
                = {s \<in> set (stories db). story_id s \<noteq> sid \<and> embedding s \<noteq> None}
            \<and> src \<notin> set (map the_story rows)
            \<and> list_all (\<lambda>r. story_id (the_story r) \<noteq> sid \<and> embedding (the_story r) \<noteq> None) rows"
    using out ms st nsrc la by blast
qed

lemmas example_defs = example_db_def example_user_def story_a_def story_b_def story_c_def
  story_d_def example_db_later_def

lemma objects_get_a: "objects_get (stories example_db) (py ''a'') = Inr story_a"
  by (simp add: objects_get_def example_defs py_def)

lemma cands: "similar_candidates example_db (py ''a'')
   = [prefetch_user example_db story_b, prefetch_user example_db story_c]"
  by (simp add: similar_candidates_def example_defs py_def)

lemma score_b: "similarity_score [0] (prefetch_user example_db story_b) = 0"
  by (simp add: similarity_score_def distance_to_def prefetch_user_def l2_distance_def story_b_def)

lemma score_c: "similarity_score [0] (prefetch_user example_db story_c) = 0"
  by (simp add: similarity_score_def distance_to_def prefetch_user_def l2_distance_def story_c_def)

lemma qs_bc: "similar_get_queryset example_db (py ''a'')
   (Inr [prefetch_user example_db story_b, prefetch_user example_db story_c])"
  by (simp add: similar_get_queryset_def objects_get_a story_a_def cands ordered_by_desc_def score_b score_c)



theorem similar_result_set_witness:
  "similar_get_queryset example_db (py ''a'')
     (Inr [prefetch_user example_db story_b, prefetch_user example_db story_c])
   \<and> set (map the_story [prefetch_user example_db story_b, prefetch_user example_db story_c])
       = {s \<in> set (stories example_db). story_id s \<noteq> py ''a'' \<and> embedding s \<noteq> None}
   \<and> story_a \<notin> set (map the_story [prefetch_user example_db story_b, prefetch_user example_db story_c])"
proof -
  have e: "embedding story_a = Some [0]" by (simp add: story_a_def)
  from similar_result_set [OF objects_get_a e] qs_bc
  have "\<exists>rows. Inr [prefetch_user example_db story_b, prefetch_user example_db story_c]
           = (Inr rows :: error + story_row list)
        \<and> mset (map the_story rows)
            = mset (filter (\<lambda>s. story_id s \<noteq> py ''a'' \<and> embedding s \<noteq> None)
                (stories example_db))
        \<and> set (map the_story rows)
            = {s \<in> set (stories example_db). story_id s \<noteq> py ''a'' \<and> embedding s \<noteq> None}
        \<and> story_a \<notin> set (map the_story rows)
        \<and> list_all (\<lambda>r. story_id (the_story r) \<noteq> py ''a''
             \<and> embedding (the_story r) \<noteq> None) rows"
    by blast
  then show ?thesis using qs_bc by auto
qed




section \<open>Unknown stories\<close>

lemma get_page_size_bounds: "1 \<le> get_page_size q \<and> get_page_size q \<le> 100"
  by (auto simp: get_page_size_def default_page_size_def max_page_size_def
      split: option.splits)

lemma num_pages_empty: "1 \<le> psize \<Longrightarrow> num_pages 0 psize = 1"
  by (simp add: num_pages_def)

lemma similar_list_empty:
  "page_number q = Some 1 \<Longrightarrow>
   similar_list q (Inr []) =
     Inr \<lparr> count = Some 0, next_link = None, previous_link = None, results = [] \<rparr>"
  using get_page_size_bounds [of q]
  by (simp add: similar_list_def page_number_paginate_def num_pages_empty Let_def)

lemma detail_retrieve_none:
  "sid \<notin> set (map story_id (stories db)) \<Longrightarrow> detail_retrieve db sid = Inl NotFound"
proof -
  assume a: "sid \<notin> set (map story_id (stories db))"
  have "filter (\<lambda>r. story_id (the_story r) = sid) (map (prefetch_user db) xs) = []"
    if "sid \<notin> set (map story_id xs)" for xs
    using that by (induction xs) (auto simp: prefetch_user_def)
  with a show ?thesis by (simp add: detail_retrieve_def detail_get_queryset_def)
qed

lemma objects_get_unknown:
  "sid \<notin> set (map story_id rows) \<Longrightarrow> objects_get rows sid = Inl DoesNotExist"
proof -
  assume "sid \<notin> set (map story_id rows)"
  then have "filter (\<lambda>s. story_id s = sid) rows = []"
    by (induction rows) auto
  then show ?thesis by (rule objects_get_none)
qed

text \<open>
  Claim C4. For a \<open>story_id\<close> that no story has, the Detail endpoint answers
  \<open>NotFound\<close> and the only outcome of the Similar queryset is the empty result, not an
  error. For a source story that exists and has no embedding, the only outcome of
  the Similar queryset is the empty result as well. The page the Similar endpoint
  answers for an empty result is the successful empty page: count 0, no results, no
  next and no previous link.
\<close>

theorem unknown_story_id:
  "(sid \<notin> set (map story_id (stories db)) \<longrightarrow>
      detail_retrieve db sid = Inl NotFound
      \<and> (similar_get_queryset db sid out \<longleftrightarrow> out = Inr []))
   \<and> (objects_get (stories db) sid = Inr src \<and> embedding src = None \<longrightarrow>
      (similar_get_queryset db sid out \<longleftrightarrow> out = Inr []))
   \<and> (page_number q = Some 1 \<longrightarrow>
      similar_list q (Inr []) =
        Inr \<lparr> count = Some 0, next_link = None, previous_link = None, results = [] \<rparr>)"
  by (auto simp: detail_retrieve_none objects_get_unknown similar_get_queryset_def
      similar_list_empty simp del: set_map)

lemma objects_get_d: "objects_get (stories example_db) (py ''d'') = Inr story_d"
  by (simp add: objects_get_def example_defs py_def)

theorem unknown_story_id_witness:
  "detail_retrieve example_db (py ''zzz'') = Inl NotFound
   \<and> similar_get_queryset example_db (py ''zzz'') (Inr [])
   \<and> similar_get_queryset example_db (py ''d'') (Inr [])
   \<and> similar_list [] (Inr []) =
        Inr \<lparr> count = Some 0, next_link = None, previous_link = None, results = [] \<rparr>"
proof -
  have 1: "py ''zzz'' \<notin> set (map story_id (stories example_db))"
    by (simp add: example_defs py_def)
  have 2: "embedding story_d = None" by (simp add: story_d_def)
  have 3: "page_number [] = Some 1" by (simp add: page_number_def qget_def query_dict_def)
  show ?thesis
    using unknown_story_id [of "py ''zzz''" example_db "Inr []" story_d "[]"]
      unknown_story_id [of "py ''d''" example_db "Inr []" story_d "[]"]
      1 2 3 objects_get_d
    by blast
qed

section \<open>Page sizes\<close>

lemma page_number_paginate_length:
  "page_number_paginate q rows = Inr p \<Longrightarrow> length (results p) \<le> get_page_size q"
  by (auto simp: page_number_paginate_def Let_def split: option.splits if_splits)

lemma cursor_paginate_length:
  "cursor_paginate decode key q rows = Inr p \<Longrightarrow> length (results p) \<le> get_page_size q"
  by (auto simp: cursor_paginate_def Let_def split: option.splits cursor.splits)

text \<open>
  Claim C7, with the pagination modelled from the specification. Without a
  \<open>page_size\<close> the effective page size is the default of 20. A numeric
  \<open>page_size\<close> of at least 1 gives \<open>min(requested, 100)\<close>; one below 1, or a value
  that is not a number, falls back to 20. The effective size never exceeds 100, and
  a page of the List endpoint or of the Similar endpoint never holds more results
  than the effective size.
\<close>

theorem page_size_negotiation:
  "(qget q (py ''page_size'') = None \<longrightarrow> get_page_size q = 20)
   \<and> (qget q (py ''page_size'') = Some s \<and> parse_int s = Some n \<and> 1 \<le> n \<longrightarrow>
        get_page_size q = nat (min n 100))
   \<and> (qget q (py ''page_size'') = Some s \<and> parse_int s = Some n \<and> n < 1 \<longrightarrow>
        get_page_size q = 20)
   \<and> (qget q (py ''page_size'') = Some s \<and> parse_int s = None \<longrightarrow> get_page_size q = 20)
   \<and> (page_number_paginate q rows = Inr p \<longrightarrow> length (results p) \<le> get_page_size q)
   \<and> (cursor_paginate decode key q rows' = Inr p' \<longrightarrow> length (results p') \<le> get_page_size q)
   \<and> get_page_size q \<le> 100"
proof (intro conjI impI)
  show "get_page_size q \<le> 100" using get_page_size_bounds [of q] by simp
  show "length (results p) \<le> get_page_size q" if "page_number_paginate q rows = Inr p"
    using that by (rule page_number_paginate_length)
  show "length (results p') \<le> get_page_size q" if "cursor_paginate decode key q rows' = Inr p'"
    using that by (rule cursor_paginate_length)
qed (auto simp: get_page_size_def default_page_size_def max_page_size_def)

lemma qget_single: "qget [(k, v)] k = Some v"
  by (simp add: qget_def query_dict_def)

lemma parse_200: "parse_int (py ''200'') = Some 200"
  by (simp add: parse_int_def parse_nat_def py_def digit_of_def)

lemma parse_0: "parse_int (py ''0'') = Some 0"
  by (simp add: parse_int_def parse_nat_def py_def digit_of_def)

lemma qget_empty: "qget [] k = None"
  by (simp add: qget_def query_dict_def)

theorem page_size_negotiation_witness:
  "get_page_size [] = 20
   \<and> get_page_size [(py ''page_size'', py ''200'')] = 100
   \<and> get_page_size [(py ''page_size'', py ''0'')] = 20"
  using page_size_negotiation [of "[]", THEN conjunct1]
    page_size_negotiation [of "[(py ''page_size'', py ''200'')]" "py ''200''" 200,
      THEN conjunct2, THEN conjunct1]
    page_size_negotiation [of "[(py ''page_size'', py ''0'')]" "py ''0''" 0,
      THEN conjunct2, THEN conjunct2, THEN conjunct1]
  by (simp add: qget_empty qget_single parse_200 parse_0)

text \<open>
  The effective size is not \<open>min(requested, 100)\<close> for every supplied value: a
  request for \<open>page_size=0\<close> is answered with the default of 20.
\<close>

theorem page_size_zero_counterexample:
  "qget [(py ''page_size'', py ''0'')] (py ''page_size'') = Some (py ''0'')
   \<and> parse_int (py ''0'') = Some 0
   \<and> get_page_size [(py ''page_size'', py ''0'')] = 20
   \<and> int (get_page_size [(py ''page_size'', py ''0'')]) \<noteq> min 0 100"
  by (simp add: qget_single parse_0 get_page_size_def default_page_size_def)

section \<open>Searching the List endpoint\<close>






lemma the_user_a:
  "the_user (prefetch_user example_db story_a) = Some (annotate example_db example_user)"
  by (simp add: prefetch_user_def annotated_users_def example_db_def story_a_def
      example_user_def annotate_def)




section \<open>The user flags\<close>

lemma annotate_flags: "flags_current db (annotate db u0)"
  by (simp add: flags_current_def annotate_def list_ex_iff)

lemma prefetch_user_flags:
  "the_user (prefetch_user db s) = Some u \<Longrightarrow> flags_current db u"
proof -
  assume "the_user (prefetch_user db s) = Some u"
  then have "find (\<lambda>u. uuid u = user_id s) (annotated_users db) = Some u"
    by (simp add: prefetch_user_def)
  then have "u \<in> set (annotated_users db)"
    by (auto simp: find_Some_iff)
  then obtain u0 where "u = annotate db u0" by (auto simp: annotated_users_def)
  then show ?thesis by (simp add: annotate_flags)
qed

lemma prefetched_rows_flags:
  "r \<in> set (map (prefetch_user db) xs) \<Longrightarrow> the_user r = Some u \<Longrightarrow> flags_current db u"
  by (auto dest: prefetch_user_flags)

lemma in_take_drop: "x \<in> set (take n (drop k xs)) \<Longrightarrow> x \<in> set xs"
  by (meson in_set_takeD in_set_dropD)

lemma page_number_paginate_subset:
  "page_number_paginate q rows = Inr p \<Longrightarrow> set (results p) \<subseteq> set rows"
  by (auto simp: page_number_paginate_def Let_def split: option.splits if_splits
      dest: in_take_drop in_set_takeD)

lemma cursor_paginate_subset:
  "cursor_paginate decode key q rows = Inr p \<Longrightarrow> set (results p) \<subseteq> set rows"
  by (auto simp: cursor_paginate_def Let_def split: option.splits cursor.splits
      dest!: in_set_takeD in_set_dropD)

lemma list_api_view_subset:
  "list_api_view decode db rows q = Inr p \<Longrightarrow> set (results p) \<subseteq> set rows"
proof -
  assume a: "list_api_view decode db rows q = Inr p"
  then obtain kept where k: "user_filter db q (search_filter q rows) = Inr kept"
    and c: "cursor_paginate decode (\<lambda>r. created_at (the_story r)) q kept = Inr p"
    by (auto simp: list_api_view_def split: sum.splits)
  from k have "set kept \<subseteq> set rows"
    by (auto simp: user_filter_def search_filter_def split: option.splits if_splits)
  with cursor_paginate_subset [OF c] show ?thesis by blast
qed

lemma detail_retrieve_flags:
  "detail_retrieve db sid = Inr r \<Longrightarrow> the_user r = Some u \<Longrightarrow> flags_current db u"
proof -
  assume a: "detail_retrieve db sid = Inr r" and u: "the_user r = Some u"
  from a have "filter (\<lambda>r. story_id (the_story r) = sid) (detail_get_queryset db) = [r]"
    by (auto simp: detail_retrieve_def split: list.splits)
  then have "r \<in> set (filter (\<lambda>r. story_id (the_story r) = sid) (detail_get_queryset db))"
    by simp
  then have "r \<in> set (map (prefetch_user db) (stories db))"
    by (simp add: detail_get_queryset_def)
  then show ?thesis using u by (rule prefetched_rows_flags)
qed

lemma similar_rows_prefetched:
  "similar_get_queryset db sid (Inr rows) \<Longrightarrow> r \<in> set rows \<Longrightarrow>
   r \<in> set (map (prefetch_user db) (stories db))"
proof -
  assume a: "similar_get_queryset db sid (Inr rows)" and r: "r \<in> set rows"
  show ?thesis
  proof (cases "objects_get (stories db) sid")
    case (Inl e)
    with a r show ?thesis by (auto simp: similar_get_queryset_def split: if_splits)
  next
    case (Inr src)
    show ?thesis
    proof (cases "embedding src")
      case None
      with a r Inr show ?thesis by (simp add: similar_get_queryset_def)
    next
      case (Some e)
      with a Inr have "mset rows = mset (similar_candidates db sid)"
        by (simp add: similar_get_queryset_def ordered_by_desc_def)
      then have "set rows = set (similar_candidates db sid)" by (rule mset_eq_setD)
      with r show ?thesis by (auto simp: similar_candidates_def)
    qed
  qed
qed

lemma list_rows_prefetched:
  "list_get_queryset db rows \<Longrightarrow> set rows = set (map (prefetch_user db) (stories db))"
proof -
  assume "list_get_queryset db rows"
  then have "mset rows = mset (map (prefetch_user db) (stories db))"
    by (simp add: list_get_queryset_def ordered_by_desc_def)
  then show ?thesis by (rule mset_eq_setD)
qed

text \<open>
  Claim C8, as the code has it. On the Detail endpoint, on the Similar endpoint and on
  the List endpoint when the cache misses, every user attached to a result carries
  \<open>has_stories\<close> and \<open>has_history\<close> as they are on the tables of that request. When
  the List endpoint hits the cache, the answer is the stored payload, with the flags
  it was written with.
\<close>

theorem user_flags_current:
  "(detail_retrieve db sid = Inr r \<and> the_user r = Some u \<longrightarrow> flags_current db u)
   \<and> (similar_get_queryset db sid qs \<and> similar_list q qs = Inr p \<and> r \<in> set (results p)
        \<and> the_user r = Some u \<longrightarrow> flags_current db u)
   \<and> (list_get_queryset db rows \<and> store_get now c (cache_key md5 q) = None
        \<and> list_view (ttl_cache now) md5 (list_api_view decode db rows) c q = (Inr p, c')
        \<and> r \<in> set (results p) \<and> the_user r = Some u \<longrightarrow> flags_current db u)
   \<and> (store_get now c (cache_key md5 q) = Some cached \<longrightarrow>
        list_view (ttl_cache now) md5 (list_api_view decode db rows) c q = (Inr cached, c))"
proof (intro conjI impI)
  show "flags_current db u" if "detail_retrieve db sid = Inr r \<and> the_user r = Some u"
    using that detail_retrieve_flags by blast
  show "flags_current db u"
    if a: "similar_get_queryset db sid qs \<and> similar_list q qs = Inr p \<and> r \<in> set (results p)
        \<and> the_user r = Some u"
  proof -
    from a obtain rs where qs: "qs = Inr rs" and pg: "page_number_paginate q rs = Inr p"
      by (auto simp: similar_list_def split: sum.splits)
    from a page_number_paginate_subset [OF pg] have "r \<in> set rs" by blast
    with a qs have "r \<in> set (map (prefetch_user db) (stories db))"
      using similar_rows_prefetched by blast
    with a show ?thesis using prefetched_rows_flags by blast
  qed
  show "flags_current db u"
    if a: "list_get_queryset db rows \<and> store_get now c (cache_key md5 q) = None
        \<and> list_view (ttl_cache now) md5 (list_api_view decode db rows) c q = (Inr p, c')
        \<and> r \<in> set (results p) \<and> the_user r = Some u"
  proof -
    from a have "list_api_view decode db rows q = Inr p"
      by (auto simp: list_view_def ttl_cache_def split: sum.splits)
    from list_api_view_subset [OF this] a have "r \<in> set rows" by blast
    with a have "r \<in> set (map (prefetch_user db) (stories db))"
      using list_rows_prefetched by blast
    with a show ?thesis using prefetched_rows_flags by blast
  qed
  show "list_view (ttl_cache now) md5 (list_api_view decode db rows) c q = (Inr cached, c)"
    if "store_get now c (cache_key md5 q) = Some cached"
    using that by (simp add: list_view_def ttl_cache_def)
qed

lemma detail_a:
  "detail_retrieve example_db (py ''a'') = Inr (prefetch_user example_db story_a)"
  by (simp add: detail_retrieve_def detail_get_queryset_def example_db_def)
     (simp add: prefetch_user_def story_a_def story_b_def story_c_def story_d_def py_def)

theorem user_flags_current_witness:
  "flags_current example_db (annotate example_db example_user)"
  using user_flags_current [of example_db "py ''a''" "prefetch_user example_db story_a"
      "annotate example_db example_user", THEN conjunct1]
    detail_a the_user_a
  by simp

lemma example_rows_queryset: "list_get_queryset example_db example_rows"
  by (simp add: list_get_queryset_def ordered_by_desc_def example_rows_def)
     (simp add: example_db_def prefetch_user_def story_a_def story_b_def story_c_def
        story_d_def)

lemma example_first_request:
  "list_view (ttl_cache 0) md5_hexdigest
      (list_api_view (\<lambda>t. None) example_db example_rows) Map.empty []
     = (Inr example_page, example_cache)"
  by (simp add: list_view_def ttl_cache_def store_get_def store_set_def list_api_view_def
      user_filter_def search_filter_def get_search_terms_def qget_empty cursor_paginate_def
      get_page_size_def default_page_size_def example_page_def example_cache_def
      example_rows_def)

lemma example_second_request:
  "list_view (ttl_cache 10) md5_hexdigest
      (list_api_view (\<lambda>t. None) example_db_later
         (map (prefetch_user example_db_later) [story_a, story_b, story_c, story_d]))
      example_cache []
     = (Inr example_page, example_cache)"
  by (simp add: list_view_def ttl_cache_def store_get_def example_cache_def)

text \<open>
  The flags of a List answer can be stale. A first request at time 0, when the user
  has no history row, writes its page to the cache; a history row is then recorded;
  a second request at time 10 is answered from the cache with
  \<open>has_history = False\<close> for that user.
\<close>

theorem stale_flags_counterexample:
  "list_get_queryset example_db example_rows
   \<and> list_view (ttl_cache 0) md5_hexdigest
      (list_api_view (\<lambda>t. None) example_db example_rows) Map.empty []
     = (Inr example_page, example_cache)
   \<and> list_view (ttl_cache 10) md5_hexdigest
      (list_api_view (\<lambda>t. None) example_db_later
         (map (prefetch_user example_db_later) [story_a, story_b, story_c, story_d]))
      example_cache []
     = (Inr example_page, example_cache)
   \<and> prefetch_user example_db story_a \<in> set (results example_page)
   \<and> the_user (prefetch_user example_db story_a) = Some (annotate example_db example_user)
   \<and> \<not> has_history (annotate example_db example_user)
   \<and> history_uuid \<lparr> history_id = 1, history_uuid = py ''u1'' \<rparr>
       = uuid (annotate example_db example_user)
   \<and> \<lparr> history_id = 1, history_uuid = py ''u1'' \<rparr> \<in> set (user_history example_db_later)
   \<and> \<not> flags_current example_db_later (annotate example_db example_user)"
proof -
  have 1: "prefetch_user example_db story_a \<in> set (results example_page)"
    by (simp add: example_page_def example_rows_def)
  have 2: "\<not> has_history (annotate example_db example_user)"
    by (simp add: annotate_def example_db_def)
  have 3: "history_uuid \<lparr> history_id = 1, history_uuid = py ''u1'' \<rparr>
       = uuid (annotate example_db example_user)"
    by (simp add: annotate_def example_user_def)
  have 4: "\<lparr> history_id = 1, history_uuid = py ''u1'' \<rparr> \<in> set (user_history example_db_later)"
    by (simp add: example_db_later_def)
  have 5: "\<not> flags_current example_db_later (annotate example_db example_user)"
    using 2 3 4 unfolding flags_current_def by blast
  show ?thesis
    using example_rows_queryset example_first_request example_second_request 1 2 3 4 5
      the_user_a
    by simp
qed

section \<open>The digest input determines the parameters\<close>

lemma and_1023: "(x::nat) AND 0x3FF = x mod 1024"
proof -
  have "(0x3FF::nat) = mask 10" by (simp add: mask_eq_exp_minus_1)
  then have "x AND 0x3FF = take_bit 10 x" by (simp add: take_bit_eq_mask)
  then show ?thesis by (simp add: take_bit_eq_mod)
qed

lemma push_and_take: "push_bit 10 (k::nat) AND take_bit 10 x = 0"
  by (rule bit_eqI) (auto simp: bit_simps)

lemma or_surrogate:
  fixes x :: nat
  assumes "x < 1024"
  shows "0xD800 OR x = 0xD800 + x" and "0xDC00 OR x = 0xDC00 + x"
proof -
  have x: "take_bit 10 x = x" using assms by (simp add: take_bit_eq_mod)
  have "(0xD800::nat) = push_bit 10 54" "(0xDC00::nat) = push_bit 10 55"
    by (simp_all add: push_bit_eq_mult)
  then have "(0xD800::nat) AND x = 0" "(0xDC00::nat) AND x = 0"
    using push_and_take [of 54 x] push_and_take [of 55 x] x by simp_all
  then show "0xD800 OR x = 0xD800 + x" "0xDC00 OR x = 0xDC00 + x"
    by (simp_all add: disjunctive_add_eq_or)
qed

lemma escape_astral:
  assumes "0x10000 \<le> n" and "n < 0x110000"
  shows "escape n = [CHR 0x5C, CHR ''u''] @ hex4 (0xD800 + (n - 0x10000) div 1024)
                    @ [CHR 0x5C, CHR ''u''] @ hex4 (0xDC00 + (n - 0x10000) mod 1024)"
proof -
  have a: "(n - 0x10000) div 1024 < 1024" using assms by simp
  have b: "drop_bit 10 (n - 0x10000) AND 0x3FF = (n - 0x10000) div 1024"
    using a by (simp add: and_1023 drop_bit_eq_div)
  have c: "(n - 0x10000) AND 0x3FF = (n - 0x10000) mod 1024" by (rule and_1023)
  show ?thesis
    using assms a unfolding escape_def Let_def b c
    by (simp add: or_surrogate)
qed

lemma hexdigit_inj: "a < 16 \<Longrightarrow> b < 16 \<Longrightarrow> hexdigit a = hexdigit b \<Longrightarrow> a = b"
proof -
  assume a: "a < 16" and b: "b < 16" and e: "hexdigit a = hexdigit b"
  have d: "distinct ''0123456789abcdef''" by simp
  have l: "length ''0123456789abcdef'' = 16" by simp
  from e have "''0123456789abcdef'' ! a = ''0123456789abcdef'' ! b" by (simp only: hexdigit_def)
  with nth_eq_iff_index_eq [OF d, of a b] a b l show "a = b" by simp
qed

lemma hex4_inj:
  assumes "n < 65536" and "m < 65536" and "hex4 n = hex4 m"
  shows "n = m"
proof -
  from assms(3) have
    "hexdigit (n div 4096 mod 16) = hexdigit (m div 4096 mod 16)"
    "hexdigit (n div 256 mod 16) = hexdigit (m div 256 mod 16)"
    "hexdigit (n div 16 mod 16) = hexdigit (m div 16 mod 16)"
    "hexdigit (n mod 16) = hexdigit (m mod 16)"
    by (simp_all add: hex4_def)
  then have "n div 4096 mod 16 = m div 4096 mod 16" "n div 256 mod 16 = m div 256 mod 16"
    "n div 16 mod 16 = m div 16 mod 16" "n mod 16 = m mod 16"
    by (auto intro: hexdigit_inj)
  note d = this
  have step: "x = y" if "x div 16 = y div 16" "x mod 16 = y mod 16" for x y :: nat
    using that by (metis div_mult_mod_eq)
  have "n div 4096 < 16" "m div 4096 < 16" using assms(1,2) by simp_all
  with d(1) have 1: "n div 4096 = m div 4096" by simp
  have e1: "x div 256 div 16 = x div 4096" for x :: nat
    using div_mult2_eq [of x 256 16] by simp
  have e2: "x div 16 div 16 = x div 256" for x :: nat
    using div_mult2_eq [of x 16 16] by simp
  have "n div 256 div 16 = m div 256 div 16" using 1 by (simp only: e1)
  then have 2: "n div 256 = m div 256" using d(2) by (rule step)
  have "n div 16 div 16 = m div 16 div 16" using 2 by (simp only: e2)
  then have 3: "n div 16 = m div 16" using d(3) by (rule step)
  from 3 d(4) show ?thesis by (rule step)
qed

lemma length_hex4 [simp]: "length (hex4 n) = 4"
  by (simp add: hex4_def)

lemma hex4_append_inj:
  assumes "n < 65536" and "m < 65536" and "hex4 n @ r = hex4 m @ r'"
  shows "n = m \<and> r = r'"
proof -
  from assms(3) have "hex4 n = hex4 m \<and> r = r'" by simp
  with assms(1,2) show ?thesis using hex4_inj by blast
qed

lemma char_of_printable:
  assumes "c < 256" and "d < 256" and "char_of (c::nat) = char_of d"
  shows "c = d"
  using assms by (simp add: char_of_eq_iff take_bit_eq_mod)

lemma char_of_eq_CHR: "c < 256 \<Longrightarrow> char_of (c::nat) = CHR 0x5C \<longleftrightarrow> c = 0x5C"
  by (simp add: char_of_eq_iff take_bit_eq_mod)

lemma escape_form:
  assumes "scalar_value c"
  shows "(escape c = [char_of c] \<and> 0x20 \<le> c \<and> c \<le> 0x7E \<and> c \<noteq> 0x5C \<and> c \<noteq> 0x22)
    \<or> (escape c = [CHR 0x5C, CHR 0x5C] \<and> c = 0x5C)
    \<or> (escape c = [CHR 0x5C, CHR 0x22] \<and> c = 0x22)
    \<or> (escape c = [CHR 0x5C, CHR ''b''] \<and> c = 0x08)
    \<or> (escape c = [CHR 0x5C, CHR ''f''] \<and> c = 0x0C)
    \<or> (escape c = [CHR 0x5C, CHR ''n''] \<and> c = 0x0A)
    \<or> (escape c = [CHR 0x5C, CHR ''r''] \<and> c = 0x0D)
    \<or> (escape c = [CHR 0x5C, CHR ''t''] \<and> c = 0x09)
    \<or> (escape c = CHR 0x5C # CHR ''u'' # hex4 c \<and> c < 0xD800)
    \<or> (escape c = CHR 0x5C # CHR ''u'' # hex4 c \<and> 0xDFFF < c \<and> c < 0x10000)
    \<or> (escape c = CHR 0x5C # CHR ''u'' # hex4 (0xD800 + (c - 0x10000) div 1024)
                    @ CHR 0x5C # CHR ''u'' # hex4 (0xDC00 + (c - 0x10000) mod 1024)
         \<and> 0x10000 \<le> c \<and> c < 0x110000)"
proof (cases "c < 0x10000")
  case True
  with assms show ?thesis by (auto simp: escape_def scalar_value_def)
next
  case False
  with assms have "0x10000 \<le> c" "c < 0x110000" by (simp_all add: scalar_value_def)
  with escape_astral [OF this] show ?thesis by simp
qed

lemma hex4_append_eq:
  "hex4 n @ r = hex4 m @ r' \<longleftrightarrow> hex4 n = hex4 m \<and> r = r'"
  by simp

lemma bs_eq_char_of: "d \<le> 126 \<Longrightarrow> CHR 0x5C = char_of (d::nat) \<longleftrightarrow> d = 0x5C"
  using char_of_eq_CHR [of d] by auto

lemma astral_eq:
  fixes c d :: nat
  assumes "65536 \<le> c" and "65536 \<le> d"
    and "(c - 65536) div 1024 = (d - 65536) div 1024"
    and "(c - 65536) mod 1024 = (d - 65536) mod 1024"
  shows "c = d"
proof -
  from assms(3,4) have "c - 65536 = d - 65536" by (metis div_mult_mod_eq)
  with assms(1,2) show ?thesis by simp
qed

lemma escape_prefix_inj:
  assumes a: "scalar_value c" and b: "scalar_value d" and eq: "escape c @ r = escape d @ r'"
  shows "c = d \<and> r = r'"
  using escape_form [OF a] escape_form [OF b] eq
  apply (elim disjE conjE)
  apply (simp_all add: char_of_eq_iff take_bit_eq_mod hex4_append_eq)
  apply (auto simp: bs_eq_char_of dest!: hex4_inj [rotated 2] intro: astral_eq)
  done

lemma char_of_ne_quote: "c \<le> 126 \<Longrightarrow> c \<noteq> 34 \<Longrightarrow> char_of (c::nat) \<noteq> CHR 0x22"
  by (simp add: char_of_eq_iff take_bit_eq_mod)

lemma escape_not_quote:
  assumes "scalar_value c"
  shows "\<exists>x t. escape c = x # t \<and> x \<noteq> CHR 0x22"
  using escape_form [OF assms]
  by (elim disjE conjE) (simp_all add: char_of_ne_quote)

lemma escaped_body_inj:
  assumes "wf_str s" and "wf_str s'"
    and "concat (map escape s) @ CHR 0x22 # r = concat (map escape s') @ CHR 0x22 # r'"
  shows "s = s' \<and> r = r'"
  using assms
proof (induction s arbitrary: s')
  case Nil
  show ?case
  proof (cases s')
    case Nil
    with Nil.prems show ?thesis by simp
  next
    case (Cons d ds)
    with Nil.prems have "scalar_value d" by (simp add: wf_str_def)
    from escape_not_quote [OF this] obtain x t where "escape d = x # t" "x \<noteq> CHR 0x22"
      by blast
    with Nil.prems Cons show ?thesis by simp
  qed
next
  case (Cons c cs)
  from Cons.prems have sc: "scalar_value c" and wcs: "wf_str cs" by (simp_all add: wf_str_def)
  show ?case
  proof (cases s')
    case Nil
    from escape_not_quote [OF sc] obtain x t where "escape c = x # t" "x \<noteq> CHR 0x22"
      by blast
    with Cons.prems Nil show ?thesis by simp
  next
    case (Cons d ds)
    with Cons.prems have sd: "scalar_value d" and wds: "wf_str ds"
      by (simp_all add: wf_str_def)
    from Cons.prems(3) Cons have
      "escape c @ (concat (map escape cs) @ CHR 0x22 # r)
         = escape d @ (concat (map escape ds) @ CHR 0x22 # r')"
      by simp
    from escape_prefix_inj [OF sc sd this]
    have "c = d" and "concat (map escape cs) @ CHR 0x22 # r = concat (map escape ds) @ CHR 0x22 # r'"
      by simp_all
    with Cons.IH [OF wcs wds] Cons show ?thesis by simp
  qed
qed

lemma json_str_prefix_inj:
  assumes "wf_str s" and "wf_str s'" and "json_str s @ r = json_str s' @ r'"
  shows "s = s' \<and> r = r'"
  using escaped_body_inj [OF assms(1,2), of r r'] assms(3) by (simp add: json_str_def)

lemma json_str_head: "\<exists>t. json_str s = CHR 0x22 # t"
  by (simp add: json_str_def)

lemma json_array_head: "\<exists>t. json_array xs = CHR ''['' # t"
  by (simp add: json_array_def)

text \<open>Arrays of elements whose encoding can be read off the front of a text.\<close>

lemma join_items_prefix_inj:
  assumes inj: "\<And>x y r r'. x \<in> A \<Longrightarrow> y \<in> A \<Longrightarrow> enc x @ r = enc y @ r' \<Longrightarrow> x = y \<and> r = r'"
    and hd: "\<And>x. x \<in> A \<Longrightarrow> \<exists>c t. enc x = c # t \<and> c \<noteq> CHR '']''"
  shows "set xs \<subseteq> A \<Longrightarrow> set ys \<subseteq> A \<Longrightarrow>
    join_items (map enc xs) @ CHR '']'' # r = join_items (map enc ys) @ CHR '']'' # r' \<Longrightarrow>
    xs = ys \<and> r = r'"
proof (induction xs arbitrary: ys)
  case Nil
  show ?case
  proof (cases ys)
    case Nil
    with Nil.prems show ?thesis by simp
  next
    case (Cons y ys')
    with Nil.prems have "y \<in> A" by simp
    from hd [OF this] obtain c t where c: "enc y = c # t" "c \<noteq> CHR '']''" by blast
    from Nil.prems(3) Cons c show ?thesis by (cases ys') simp_all
  qed
next
  case (Cons x xs')
  from Cons.prems have xA: "x \<in> A" and xsA: "set xs' \<subseteq> A" by simp_all
  show ?case
  proof (cases ys)
    case Nil
    from hd [OF xA] obtain c t where c: "enc x = c # t" "c \<noteq> CHR '']''" by blast
    from Cons.prems(3) Nil c show ?thesis by (cases xs') simp_all
  next
    case (Cons y ys')
    with Cons.prems have yA: "y \<in> A" and ysA: "set ys' \<subseteq> A" by simp_all
    have tl: "join_items (map enc (z # zs)) @ CHR '']'' # q
        = enc z @ (if zs = [] then CHR '']'' # q
                   else '', '' @ join_items (map enc zs) @ CHR '']'' # q)" for z zs q
      by (cases zs) simp_all
    from Cons.prems(3) Cons have
      "enc x @ (if xs' = [] then CHR '']'' # r
                 else '', '' @ join_items (map enc xs') @ CHR '']'' # r)
       = enc y @ (if ys' = [] then CHR '']'' # r'
                 else '', '' @ join_items (map enc ys') @ CHR '']'' # r')"
      by (simp only: tl)
    from inj [OF xA yA this] have xy: "x = y"
      and rest: "(if xs' = [] then CHR '']'' # r
                 else '', '' @ join_items (map enc xs') @ CHR '']'' # r)
       = (if ys' = [] then CHR '']'' # r'
                 else '', '' @ join_items (map enc ys') @ CHR '']'' # r')"
      by simp_all
    show ?thesis
    proof (cases "xs' = []")
      case True
      with rest have "ys' = [] \<and> r = r'" by (cases "ys' = []") simp_all
      with True xy Cons show ?thesis by simp
    next
      case False
      with rest have ne: "ys' \<noteq> []" by (cases "ys' = []") simp_all
      with rest False have
        "join_items (map enc xs') @ CHR '']'' # r = join_items (map enc ys') @ CHR '']'' # r'"
        by simp
      from Cons.IH [OF xsA ysA this] xy Cons show ?thesis by simp
    qed
  qed
qed

lemma json_array_prefix_inj:
  assumes inj: "\<And>x y r r'. x \<in> A \<Longrightarrow> y \<in> A \<Longrightarrow> enc x @ r = enc y @ r' \<Longrightarrow> x = y \<and> r = r'"
    and hd: "\<And>x. x \<in> A \<Longrightarrow> \<exists>c t. enc x = c # t \<and> c \<noteq> CHR '']''"
    and "set xs \<subseteq> A" and "set ys \<subseteq> A"
    and "json_array (map enc xs) @ r = json_array (map enc ys) @ r'"
  shows "xs = ys \<and> r = r'"
proof (rule join_items_prefix_inj [of A enc xs ys r r'])
  show "x = y \<and> r = r'" if "x \<in> A" "y \<in> A" "enc x @ r = enc y @ r'" for x y r r'
    using that by (rule inj)
  show "\<exists>c t. enc x = c # t \<and> c \<noteq> CHR '']''" if "x \<in> A" for x
    using that by (rule hd)
  show "set xs \<subseteq> A" "set ys \<subseteq> A" by fact+
  from assms(5) show
    "join_items (map enc xs) @ CHR '']'' # r = join_items (map enc ys) @ CHR '']'' # r'"
    by (simp add: json_array_def)
qed

lemma json_item_prefix_inj:
  assumes "wf_str (fst kv) \<and> list_all wf_str (snd kv)"
    and "wf_str (fst kv') \<and> list_all wf_str (snd kv')"
    and eq: "json_item kv @ r = json_item kv' @ r'"
  shows "kv = kv' \<and> r = r'"
proof -
  have f: "json_item p @ q = CHR ''['' # (json_str (fst p)
      @ ('', '' @ json_array (map json_str (snd p)) @ CHR '']'' # q))" for p q
    by (simp add: json_item_def json_array_def)
  from eq have "json_str (fst kv) @ ('', '' @ json_array (map json_str (snd kv)) @ CHR '']'' # r)
      = json_str (fst kv') @ ('', '' @ json_array (map json_str (snd kv')) @ CHR '']'' # r')"
    by (simp only: f list.inject)
  from json_str_prefix_inj [OF _ _ this] assms(1,2)
  have k: "fst kv = fst kv'"
    and rest: "json_array (map json_str (snd kv)) @ (CHR '']'' # r)
      = json_array (map json_str (snd kv')) @ (CHR '']'' # r')"
    by simp_all
  have "snd kv = snd kv' \<and> CHR '']'' # r = CHR '']'' # r'"
  proof (rule json_array_prefix_inj [of "Collect wf_str" json_str])
    show "x = y \<and> a = b"
      if "x \<in> Collect wf_str" "y \<in> Collect wf_str" "json_str x @ a = json_str y @ b"
      for x y a b
      using that json_str_prefix_inj [of x y a b] by simp
    show "\<exists>c t. json_str x = c # t \<and> c \<noteq> CHR '']''" for x
      by (simp add: json_str_def)
    show "set (snd kv) \<subseteq> Collect wf_str" "set (snd kv') \<subseteq> Collect wf_str"
      using assms(1,2) by (auto simp: list_all_iff)
    show "json_array (map json_str (snd kv)) @ (CHR '']'' # r)
      = json_array (map json_str (snd kv')) @ (CHR '']'' # r')" by (rule rest)
  qed
  with k show ?thesis by (simp add: prod_eq_iff)
qed

lemma json_dumps_inj:
  assumes "list_all (\<lambda>kv. wf_str (fst kv) \<and> list_all wf_str (snd kv)) xs"
    and "list_all (\<lambda>kv. wf_str (fst kv) \<and> list_all wf_str (snd kv)) ys"
    and eq: "json_dumps xs = json_dumps ys"
  shows "xs = ys"
proof -
  let ?A = "{kv. wf_str (fst kv) \<and> list_all wf_str (snd kv)}"
  have "xs = ys \<and> ([]::string) = []"
  proof (rule json_array_prefix_inj [of ?A json_item])
    show "x = y \<and> a = b" if "x \<in> ?A" "y \<in> ?A" "json_item x @ a = json_item y @ b"
      for x y a b
      using that json_item_prefix_inj [of x y a b] by simp
    show "\<exists>c t. json_item x = c # t \<and> c \<noteq> CHR '']''" for x
      by (simp add: json_item_def json_array_def)
    show "set xs \<subseteq> ?A" "set ys \<subseteq> ?A" using assms(1,2) by (auto simp: list_all_iff)
    show "json_array (map json_item xs) @ [] = json_array (map json_item ys) @ []"
      using eq by (simp add: json_dumps_def)
  qed
  then show ?thesis by simp
qed

lemma query_dict_snoc: "query_dict (q @ [(k, v)]) = appendlist (query_dict q) k v"
  by (simp add: query_dict_def)

lemma map_of_appendlist:
  "map_of (appendlist d k v) k' =
     (if k' = k then Some ((case map_of d k of None \<Rightarrow> [] | Some vs \<Rightarrow> vs) @ [v])
      else map_of d k')"
  by (induction d) auto

lemma keys_appendlist: "fst ` set (appendlist d k v) = insert k (fst ` set d)"
proof (induction d)
  case Nil
  show ?case by simp
next
  case (Cons a d)
  obtain k' vs where a: "a = (k', vs)" by (cases a)
  show ?case
  proof (cases "k' = k")
    case True
    then show ?thesis by (simp add: a)
  next
    case False
    then show ?thesis using Cons by (simp add: a insert_commute)
  qed
qed

lemma distinct_appendlist:
  "distinct (map fst d) \<Longrightarrow> distinct (map fst (appendlist d k v))"
proof (induction d)
  case Nil
  then show ?case by simp
next
  case (Cons a d)
  obtain k' vs where a: "a = (k', vs)" by (cases a)
  from Cons have "k' \<notin> fst ` set d" "distinct (map fst (appendlist d k v))"
    by (simp_all add: a)
  then show ?case using Cons.prems by (auto simp: a keys_appendlist)
qed

lemma distinct_query_dict: "distinct (map fst (query_dict q))"
proof (induction q rule: rev_induct)
  case Nil
  then show ?case by (simp add: query_dict_def)
next
  case (snoc p q)
  then show ?case by (cases p) (simp add: query_dict_snoc distinct_appendlist)
qed

lemma map_of_query_dict:
  "map_of (query_dict q) k = (if k \<in> fst ` set q then Some (getlist q k) else None)"
proof (induction q rule: rev_induct)
  case Nil
  then show ?case by (simp add: query_dict_def)
next
  case (snoc p q)
  obtain k0 v0 where p: "p = (k0, v0)" by (cases p)
  show ?case
    using snoc
    by (auto simp: p query_dict_snoc map_of_appendlist getlist_def filter_empty_conv
        intro: rev_image_eqI)
qed




lemma wf_query_dict:
  assumes "wf_query q"
  shows "list_all (\<lambda>kv. wf_str (fst kv) \<and> list_all wf_str (snd kv)) (query_dict q)"
proof -
  have "wf_str k \<and> list_all wf_str vs" if "(k, vs) \<in> set (query_dict q)" for k vs
  proof -
    from that have "map_of (query_dict q) k = Some vs"
      using distinct_query_dict by simp
    then have k: "k \<in> fst ` set q" and vs: "vs = getlist q k"
      by (auto simp: map_of_query_dict split: if_splits)
    from assms k have "wf_str k" by (auto simp: wf_query_def list_all_iff)
    moreover from assms have "list_all wf_str (getlist q k)"
      by (auto simp: wf_query_def list_all_iff getlist_def)
    ultimately show ?thesis using vs by simp
  qed
  then show ?thesis by (auto simp: list_all_iff)
qed

lemma params_key_inj:
  assumes "wf_query q1" and "wf_query q2" and "params_key q1 = params_key q2"
  shows "set (query_dict q1) = set (query_dict q2)"
proof -
  have w: "list_all (\<lambda>kv. wf_str (fst kv) \<and> list_all wf_str (snd kv)) (sort (query_dict q))"
    if "wf_query q" for q
    using wf_query_dict [OF that] by (simp add: list_all_iff)
  from assms(3) have "json_dumps (sort (query_dict q1)) = json_dumps (sort (query_dict q2))"
    by (simp add: params_key_def)
  from json_dumps_inj [OF w [OF assms(1)] w [OF assms(2)] this]
  have "set (sort (query_dict q1)) = set (sort (query_dict q2))" by simp
  then show ?thesis by simp
qed






text \<open>
  The values of one key are a list in arrival order, and that order is part of the
  digest input: \<open>a=1&a=2\<close> and \<open>a=2&a=1\<close> are digested as different texts.
\<close>

lemma repeated_key_order:
  "params_key [(py ''a'', py ''1''), (py ''a'', py ''2'')]
     \<noteq> params_key [(py ''a'', py ''2''), (py ''a'', py ''1'')]"
proof
  assume e: "params_key [(py ''a'', py ''1''), (py ''a'', py ''2'')]
     = params_key [(py ''a'', py ''2''), (py ''a'', py ''1'')]"
  have w: "wf_query [(py ''a'', py ''1''), (py ''a'', py ''2'')]"
    "wf_query [(py ''a'', py ''2''), (py ''a'', py ''1'')]"
    by (simp_all add: wf_query_def wf_str_def py_def scalar_value_def)
  from params_key_inj [OF w e] show False by (simp add: query_dict_def py_def)
qed

end
